theory Spec2Isabelle
  imports Complex_Main
begin

section \<open>The IMDB review classifier: text encoding and thresholding\<close>

text \<open>
  A shallow embedding of \<^verbatim>\<open>app.py\<close>: the constants, \<^verbatim>\<open>encode_review\<close>,
  \<^verbatim>\<open>predict_review\<close> and the handler of the classify button.

  A Python \<^verbatim>\<open>str\<close> is a sequence of Unicode code points, so a string is a list of
  naturals here; \<open>ascii\<close> turns an Isabelle string literal into one.
\<close>

type_synonym ustr = "nat list"

definition ascii :: "string \<Rightarrow> ustr" where
  "ascii s = map of_char s"

subsection \<open>Parameters\<close>

definition VOCAB_SIZE :: int where
  "VOCAB_SIZE = 10000"

definition MAXLEN :: nat where
  "MAXLEN = 200"

definition INDEX_OFFSET :: int where
  "INDEX_OFFSET = 3"

subsection \<open>The string methods of Python that the code calls\<close>

text \<open>
  \<^verbatim>\<open>str.split()\<close> and \<^verbatim>\<open>str.strip()\<close> without argument use the whitespace of
  \<^verbatim>\<open>str.isspace\<close>: the code points below.
\<close>

definition isspace :: "nat \<Rightarrow> bool" where
  "isspace c \<longleftrightarrow>
     (9 \<le> c \<and> c \<le> 13) \<or> (28 \<le> c \<and> c \<le> 32) \<or> c = 133 \<or> c = 160 \<or> c = 5760 \<or>
     (8192 \<le> c \<and> c \<le> 8202) \<or> c = 8232 \<or> c = 8233 \<or> c = 8239 \<or> c = 8287 \<or> c = 12288"

definition is_ascii :: "ustr \<Rightarrow> bool" where
  "is_ascii s = list_all (\<lambda>c. c < 128) s"

definition ascii_lower_char :: "nat \<Rightarrow> nat" where
  "ascii_lower_char c = (if 65 \<le> c \<and> c \<le> 90 then c + 32 else c)"

text \<open>
  \<^verbatim>\<open>str.lower()\<close>: on a string of ASCII characters only, the letters A to Z move to
  a to z and nothing else changes. On any other string the result comes from the case
  mappings of the Unicode character database, which is data of the interpreter and not of
  this program: it is the parameter \<open>unicode_lower\<close>.
\<close>

definition str_lower :: "(ustr \<Rightarrow> ustr) \<Rightarrow> ustr \<Rightarrow> ustr" where
  "str_lower unicode_lower s = (if is_ascii s then map ascii_lower_char s else unicode_lower s)"

text \<open>
  \<^verbatim>\<open>str.split()\<close>: the maximal runs of characters that are not whitespace, in order.
  \<open>split_from cur s\<close> scans \<open>s\<close> with the current word \<open>cur\<close> held in reverse.
\<close>

fun split_from :: "ustr \<Rightarrow> ustr \<Rightarrow> ustr list" where
  "split_from cur [] = (if cur = [] then [] else [rev cur])"
| "split_from cur (c # cs) =
     (if isspace c then (if cur = [] then split_from [] cs else rev cur # split_from [] cs)
      else split_from (c # cur) cs)"

definition str_split :: "ustr \<Rightarrow> ustr list" where
  "str_split s = split_from [] s"

text \<open>\<^verbatim>\<open>str.strip()\<close>: leading and trailing whitespace removed.\<close>

definition str_strip :: "ustr \<Rightarrow> ustr" where
  "str_strip s = rev (dropWhile isspace (rev (dropWhile isspace s)))"

subsection \<open>Keras' \<^verbatim>\<open>pad_sequences\<close> with its defaults\<close>

text \<open>
  \<^verbatim>\<open>pad_sequences(sequences, maxlen)\<close> with \<^verbatim>\<open>padding='pre'\<close>,
  \<^verbatim>\<open>truncating='pre'\<close>, \<^verbatim>\<open>value=0\<close>: each sequence keeps its last \<open>maxlen\<close> entries
  (\<^verbatim>\<open>s[-maxlen:]\<close>, for a positive \<open>maxlen\<close>) and is written at the right end of a row
  of \<open>maxlen\<close> zeros. The result has one row per sequence.
\<close>

definition pad_row :: "nat \<Rightarrow> int list \<Rightarrow> int list" where
  "pad_row maxlen s =
     (let trunc = drop (length s - maxlen) s
      in replicate (maxlen - length trunc) 0 @ trunc)"

definition pad_sequences :: "int list list \<Rightarrow> nat \<Rightarrow> int list list" where
  "pad_sequences sequences maxlen = map (pad_row maxlen) sequences"

subsection \<open>\<^verbatim>\<open>encode_review\<close>\<close>

text \<open>
  \<^verbatim>\<open>word_index\<close> is the table of \<^verbatim>\<open>imdb.get_word_index()\<close>, from a word to its
  frequency rank: a dictionary, so a map. A rank is a position in the frequency order of
  the corpus, counted from 1, so the ranks are naturals here.

  The loop over \<^verbatim>\<open>words\<close> appends one entry to \<^verbatim>\<open>encoded\<close> per word.
\<close>

type_synonym word_index = "ustr \<rightharpoonup> nat"

fun encode_loop :: "word_index \<Rightarrow> ustr list \<Rightarrow> int list \<Rightarrow> int list" where
  "encode_loop word_index [] encoded = encoded"
| "encode_loop word_index (word # words) encoded =
     (case word_index word of
        Some rank \<Rightarrow>
          (let idx = int rank + INDEX_OFFSET
           in if idx < VOCAB_SIZE then encode_loop word_index words (encoded @ [idx])
              else encode_loop word_index words (encoded @ [2]))
      | None \<Rightarrow> encode_loop word_index words (encoded @ [2]))"

text \<open>The list \<^verbatim>\<open>encoded\<close> when the loop has ended, before padding.\<close>

definition encoded_of :: "(ustr \<Rightarrow> ustr) \<Rightarrow> word_index \<Rightarrow> ustr \<Rightarrow> int list" where
  "encoded_of unicode_lower word_index text =
     (let words = str_split (str_lower unicode_lower text)
      in encode_loop word_index words [1])"

definition encode_review :: "(ustr \<Rightarrow> ustr) \<Rightarrow> word_index \<Rightarrow> ustr \<Rightarrow> int list list" where
  "encode_review unicode_lower word_index text =
     pad_sequences [encoded_of unicode_lower word_index text] MAXLEN"

subsection \<open>\<^verbatim>\<open>predict_review\<close>\<close>

text \<open>
  \<^verbatim>\<open>model.predict(seq)[0][0]\<close> is a 32-bit float: a rational number, an infinity or
  NaN. The comparison with \<^verbatim>\<open>0.5\<close> and the conversion \<^verbatim>\<open>float(prob)\<close> are both
  exact, and every comparison with NaN is false. The frozen model is the parameter
  \<open>model\<close>.
\<close>

datatype np_float = Fin rat | PosInf | NegInf | NaN

fun ge_half :: "np_float \<Rightarrow> bool" where
  "ge_half (Fin r) = (r \<ge> 1 / 2)"
| "ge_half PosInf = True"
| "ge_half NegInf = False"
| "ge_half NaN = False"

text \<open>
  What the program does to the outside is recorded as a list of events, in order: the
  forward pass of the model, a warning on the page, a rendered result.
\<close>

datatype event =
    ModelPredict "int list list"
  | StWarning string
  | StMarkdown string string np_float

definition predict_review ::
  "(int list list \<Rightarrow> np_float) \<Rightarrow> (ustr \<Rightarrow> ustr) \<Rightarrow> word_index \<Rightarrow> ustr
     \<Rightarrow> (string \<times> np_float) \<times> event list" where
  "predict_review model unicode_lower word_index text =
     (let seq = encode_review unicode_lower word_index text;
          prob = model seq;
          label = (if ge_half prob then ''Positive'' else ''Negative'')
      in ((label, prob), [ModelPredict seq]))"

subsection \<open>The classify button\<close>

text \<open>
  \<open>clicked\<close> is what \<^verbatim>\<open>st.button\<close> returns. The colour of the result is chosen by
  \<^verbatim>\<open>"Positive" in label\<close>, and the label is one of the two literals.
\<close>

definition classify_button ::
  "(int list list \<Rightarrow> np_float) \<Rightarrow> (ustr \<Rightarrow> ustr) \<Rightarrow> word_index \<Rightarrow> bool \<Rightarrow> ustr
     \<Rightarrow> event list" where
  "classify_button model unicode_lower word_index clicked user_input =
     (if clicked then
        (if length (str_strip user_input) = 0
         then [StWarning ''Please write a review to classify.'']
         else
           (case predict_review model unicode_lower word_index user_input of
              ((label, prob), events) \<Rightarrow>
                (let color = (if label = ''Positive'' then ''#00C851'' else ''#ff4444'')
                 in events @ [StMarkdown color label prob])))
      else [])"

subsection \<open>The example reviews\<close>

text \<open>
  Below the button the page renders five fixed reviews, each with its prediction, on every
  run of the script.
\<close>

definition sample_reviews :: "ustr list" where
  "sample_reviews =
     [ascii ''This movie was amazing! The storyline was strong and the acting was great.'',
      ascii ''Absolutely terrible. Waste of time, the plot was horrible.'',
      ascii ''Not bad, but not great. It was okay overall.'',
      ascii ''What a beautiful movie. The visuals and music were stunning.'',
      ascii ''I hated this film. It was boring and predictable.'']"

definition example_section ::
  "(int list list \<Rightarrow> np_float) \<Rightarrow> (ustr \<Rightarrow> ustr) \<Rightarrow> word_index \<Rightarrow> event list" where
  "example_section model unicode_lower word_index =
     concat (map
       (\<lambda>text.
          (case predict_review model unicode_lower word_index text of
             ((label, prob), events) \<Rightarrow>
               (let pred_color = (if label = ''Positive'' then ''#00C851'' else ''#ff4444'')
                in events @ [StMarkdown pred_color label prob])))
       sample_reviews)"

subsection \<open>\<^verbatim>\<open>encode_review\<close> as a run over the variables of the program\<close>

text \<open>
  The same function, statement by statement, on a store: the module-level variables
  \<^verbatim>\<open>word_index\<close>, \<^verbatim>\<open>model\<close> and \<^verbatim>\<open>user_input\<close>, and the variables that the body
  assigns, \<^verbatim>\<open>words\<close>, \<^verbatim>\<open>encoded\<close> and \<^verbatim>\<open>padded\<close>. A run starts from any store, so
  from whatever an earlier run or the rest of the script has left in these variables (a
  real call starts with its local variables unbound, which is one case of this), and it
  returns the value of \<^verbatim>\<open>padded\<close> with the store it has reached. The table is read from
  the store at each lookup, as the loop reads the global.
\<close>

record store =
  g_word_index :: word_index
  g_model :: "int list list \<Rightarrow> np_float"
  g_user_input :: ustr
  l_words :: "ustr list"
  l_encoded :: "int list"
  l_padded :: "int list list"

fun encode_review_loop :: "ustr list \<Rightarrow> store \<Rightarrow> store" where
  "encode_review_loop [] s = s"
| "encode_review_loop (word # rest) s =
     encode_review_loop rest
       (case g_word_index s word of
          Some rank \<Rightarrow>
            (let idx = int rank + INDEX_OFFSET
             in if idx < VOCAB_SIZE then s\<lparr>l_encoded := l_encoded s @ [idx]\<rparr>
                else s\<lparr>l_encoded := l_encoded s @ [2]\<rparr>)
        | None \<Rightarrow> s\<lparr>l_encoded := l_encoded s @ [2]\<rparr>)"

definition encode_review_run ::
  "(ustr \<Rightarrow> ustr) \<Rightarrow> store \<Rightarrow> ustr \<Rightarrow> int list list \<times> store" where
  "encode_review_run unicode_lower s text =
     (let s1 = s\<lparr>l_words := str_split (str_lower unicode_lower text)\<rparr>;
          s2 = s1\<lparr>l_encoded := [1]\<rparr>;
          s3 = encode_review_loop (l_words s2) s2;
          s4 = s3\<lparr>l_padded := pad_sequences [l_encoded s3] MAXLEN\<rparr>
      in (l_padded s4, s4))"

subsection \<open>Properties named by the specification\<close>

text \<open>The entry that one word contributes, as the specification words it.\<close>

definition word_code :: "word_index \<Rightarrow> ustr \<Rightarrow> int" where
  "word_code word_index word =
     (case word_index word of
        None \<Rightarrow> 2
      | Some rank \<Rightarrow> (if int rank + 3 < 10000 then int rank + 3 else 2))"

text \<open>The first entry of a row that is not the pad value 0, if there is one.\<close>

definition is_pad :: "int \<Rightarrow> bool" where
  "is_pad x \<longleftrightarrow> x = 0"

definition first_content :: "int list \<Rightarrow> int option" where
  "first_content row = (case dropWhile is_pad row of [] \<Rightarrow> None | x # _ \<Rightarrow> Some x)"

section \<open>Lemmas on the building blocks\<close>

lemma encode_loop_append:
  "encode_loop word_index words encoded = encoded @ map (word_code word_index) words"
proof (induction words arbitrary: encoded)
  case Nil
  show ?case by simp
next
  case (Cons word words)
  show ?case
    by (cases "word_index word")
       (simp_all add: Cons.IH word_code_def INDEX_OFFSET_def VOCAB_SIZE_def Let_def)
qed

lemma encoded_of_eq:
  "encoded_of unicode_lower word_index text =
     1 # map (word_code word_index) (str_split (str_lower unicode_lower text))"
  by (simp add: encoded_of_def encode_loop_append)

lemma length_pad_row: "length (pad_row maxlen s) = maxlen"
  by (simp add: pad_row_def Let_def)

lemma pad_row_short: "length s \<le> maxlen \<Longrightarrow> pad_row maxlen s = replicate (maxlen - length s) 0 @ s"
  by (simp add: pad_row_def Let_def)

lemma pad_row_long: "maxlen \<le> length s \<Longrightarrow> pad_row maxlen s = drop (length s - maxlen) s"
  by (simp add: pad_row_def Let_def)

lemma encode_review_row:
  "encode_review unicode_lower word_index text =
     [pad_row MAXLEN (encoded_of unicode_lower word_index text)]"
  by (simp add: encode_review_def pad_sequences_def)

lemma set_pad_row: "set (pad_row maxlen s) \<subseteq> insert 0 (set s)"
proof -
  have "set (drop (length s - maxlen) s) \<subseteq> set s"
    by (rule set_drop_subset)
  then show ?thesis
    by (auto simp: pad_row_def Let_def)
qed

lemma encode_review_no_words:
  assumes "str_split (str_lower unicode_lower text) = []"
  shows "encode_review unicode_lower word_index text = [replicate 199 0 @ [1]]"
  using assms by (simp add: encode_review_row encoded_of_eq pad_row_def MAXLEN_def)

text \<open>Whitespace only: no word, and nothing left after stripping.\<close>

lemma split_from_spaces:
  "list_all isspace s \<Longrightarrow> split_from cur s = (if cur = [] then [] else [rev cur])"
  by (induction s arbitrary: cur) auto

lemma str_split_spaces: "list_all isspace s \<Longrightarrow> str_split s = []"
  by (simp add: str_split_def split_from_spaces)

lemma split_from_not_Nil: "cur \<noteq> [] \<Longrightarrow> split_from cur s \<noteq> []"
  by (induction s arbitrary: cur) auto

lemma str_split_Nil_iff: "str_split s = [] \<longleftrightarrow> list_all isspace s"
proof
  show "str_split s = [] \<Longrightarrow> list_all isspace s"
    unfolding str_split_def
  proof (induction s)
    case Nil
    show ?case by simp
  next
    case (Cons c cs)
    show ?case
    proof (cases "isspace c")
      case True
      with Cons show ?thesis by simp
    next
      case False
      with Cons.prems split_from_not_Nil [of "[c]" cs] show ?thesis by simp
    qed
  qed
next
  show "list_all isspace s \<Longrightarrow> str_split s = []"
    by (rule str_split_spaces)
qed

lemma str_strip_Nil_iff: "str_strip s = [] \<longleftrightarrow> list_all isspace s"
proof
  assume "str_strip s = []"
  then have all: "\<forall>x\<in>set (dropWhile isspace s). isspace x"
    by (simp add: str_strip_def dropWhile_eq_Nil_conv)
  have "dropWhile isspace s = []"
  proof (rule ccontr)
    assume ne: "dropWhile isspace s \<noteq> []"
    then have "\<not> isspace (hd (dropWhile isspace s))"
      by (rule hd_dropWhile)
    moreover from ne have "hd (dropWhile isspace s) \<in> set (dropWhile isspace s)"
      by simp
    ultimately show False
      using all by blast
  qed
  then have "\<forall>x\<in>set s. isspace x"
    by (rule dropWhile_eq_Nil_conv [THEN iffD1])
  then show "list_all isspace s"
    by (simp add: list_all_iff)
next
  assume "list_all isspace s"
  then have "dropWhile isspace s = []"
    by (induction s) simp_all
  then show "str_strip s = []"
    by (simp add: str_strip_def del: dropWhile_eq_Nil_conv)
qed

lemma ascii_lower_char_space: "isspace c \<Longrightarrow> ascii_lower_char c = c"
  by (auto simp: isspace_def ascii_lower_char_def)

lemma map_ascii_lower_spaces: "list_all isspace s \<Longrightarrow> map ascii_lower_char s = s"
  by (induction s) (simp_all add: ascii_lower_char_space)

text \<open>A review of \<open>n\<close> words: the word \<^verbatim>\<open>a\<close> and a blank, \<open>n\<close> times.\<close>

lemma is_ascii_reps: "is_ascii (concat (replicate n (ascii ''a '')))"
  by (induction n) (simp_all add: is_ascii_def ascii_def)

lemma lower_reps:
  "map ascii_lower_char (concat (replicate n (ascii ''a ''))) = concat (replicate n (ascii ''a ''))"
  by (induction n) (simp_all add: ascii_def ascii_lower_char_def)

lemma split_reps: "str_split (concat (replicate n (ascii ''a ''))) = replicate n (ascii ''a'')"
  unfolding str_split_def
  by (induction n) (simp_all add: ascii_def isspace_def)

lemma encoded_of_reps:
  "encoded_of unicode_lower Map.empty (concat (replicate n (ascii ''a ''))) = 1 # replicate n 2"
  by (simp add: encoded_of_eq str_lower_def is_ascii_reps lower_reps split_reps word_code_def)

lemma first_content_pad: "x \<noteq> 0 \<Longrightarrow> first_content (replicate k 0 @ x # xs) = Some x"
proof -
  assume "x \<noteq> 0"
  then have "dropWhile is_pad (replicate k 0 @ x # xs) = x # xs"
    by (induction k) (simp_all add: is_pad_def)
  then show ?thesis
    by (simp add: first_content_def)
qed

text \<open>
  The loop of the run changes \<^verbatim>\<open>encoded\<close> and nothing else, and the run returns what
  \<open>encode_review\<close> computes from the table of the store it started in.
\<close>

lemma encode_review_loop_eq:
  "encode_review_loop words s =
     s\<lparr>l_encoded := encode_loop (g_word_index s) words (l_encoded s)\<rparr>"
proof (induction words arbitrary: s)
  case Nil
  show ?case by simp
next
  case (Cons word words)
  show ?case
    by (cases "g_word_index s word") (simp_all add: Cons.IH Let_def)
qed

lemma encode_review_run_eq:
  "encode_review_run unicode_lower s text =
     (encode_review unicode_lower (g_word_index s) text,
      s\<lparr>l_words := str_split (str_lower unicode_lower text),
        l_encoded := encoded_of unicode_lower (g_word_index s) text,
        l_padded := encode_review unicode_lower (g_word_index s) text\<rparr>)"
  by (simp add: encode_review_run_def encode_review_loop_eq encode_review_def encoded_of_def
      Let_def)

section \<open>The claims\<close>

text \<open>
  C1. Every word token of the lower-cased, whitespace-split text contributes one entry of
  \<^verbatim>\<open>encoded\<close>, in order, after the leading start entry: rank + 3 when the word is in
  the table and rank + 3 is below 10000, the unknown value 2 when it is in the table and
  rank + 3 is 10000 or more, and 2 when the word is not in the table.
\<close>

theorem encode_review_word_tokens:
  assumes "words = str_split (str_lower unicode_lower text)"
    and "i < length words"
  shows "length (encoded_of unicode_lower word_index text) = Suc (length words) \<and>
         (\<forall>rank. word_index (words ! i) = Some rank \<and> int rank + 3 < 10000 \<longrightarrow>
            encoded_of unicode_lower word_index text ! Suc i = int rank + 3) \<and>
         (\<forall>rank. word_index (words ! i) = Some rank \<and> int rank + 3 \<ge> 10000 \<longrightarrow>
            encoded_of unicode_lower word_index text ! Suc i = 2) \<and>
         (word_index (words ! i) = None \<longrightarrow>
            encoded_of unicode_lower word_index text ! Suc i = 2)"
  using assms by (simp add: encoded_of_eq word_code_def)

theorem encode_review_word_tokens_witness:
  "str_split (str_lower (\<lambda>s. s) (ascii ''Good xyz film'')) =
     [ascii ''good'', ascii ''xyz'', ascii ''film''] \<and>
   length (encoded_of (\<lambda>s. s) [ascii ''good'' \<mapsto> 10, ascii ''film'' \<mapsto> 9997]
     (ascii ''Good xyz film'')) = 4 \<and>
   encoded_of (\<lambda>s. s) [ascii ''good'' \<mapsto> 10, ascii ''film'' \<mapsto> 9997]
     (ascii ''Good xyz film'') ! 1 = 13 \<and>
   encoded_of (\<lambda>s. s) [ascii ''good'' \<mapsto> 10, ascii ''film'' \<mapsto> 9997]
     (ascii ''Good xyz film'') ! 2 = 2 \<and>
   encoded_of (\<lambda>s. s) [ascii ''good'' \<mapsto> 10, ascii ''film'' \<mapsto> 9997]
     (ascii ''Good xyz film'') ! 3 = 2"
proof -
  let ?wi = "[ascii ''good'' \<mapsto> 10, ascii ''film'' \<mapsto> 9997] :: word_index"
  let ?text = "ascii ''Good xyz film''"
  let ?words = "[ascii ''good'', ascii ''xyz'', ascii ''film'']"
  let ?enc = "encoded_of (\<lambda>s. s) ?wi ?text"
  have w: "?words = str_split (str_lower (\<lambda>s. s) ?text)"
    by (simp add: str_split_def str_lower_def is_ascii_def ascii_def ascii_lower_char_def
        isspace_def)
  have i0: "0 < length ?words" and i1: "1 < length ?words" and i2: "2 < length ?words"
    by simp_all
  have g0: "?wi (?words ! 0) = Some 10"
    by (simp add: ascii_def)
  have g1: "?wi (?words ! 1) = None"
    by (simp add: ascii_def)
  have g2: "?wi (?words ! 2) = Some 9997"
    by (simp add: ascii_def)
  have len: "length ?enc = 4"
    using encode_review_word_tokens [OF w i0, of ?wi] by simp
  have e1: "?enc ! Suc 0 = 13"
    using encode_review_word_tokens [OF w i0, of ?wi] g0 by simp
  have e2: "?enc ! Suc 1 = 2"
    using encode_review_word_tokens [OF w i1, of ?wi] g1 by simp
  have e3: "?enc ! Suc 2 = 2"
    using encode_review_word_tokens [OF w i2, of ?wi] g2 by simp
  have s2: "Suc 1 = 2" and s3: "Suc 2 = 3"
    by simp_all
  show ?thesis
    using w len e1 e2 e3 unfolding s2 s3 by simp
qed

text \<open>
  C5. Encoding the empty string gives one row of length 200: 199 zeros, then the start
  value 1.
\<close>

theorem encode_review_empty:
  "encode_review unicode_lower word_index [] = [replicate 199 0 @ [1]]"
  by (simp add: encode_review_row encoded_of_eq str_lower_def is_ascii_def str_split_def
      pad_row_def MAXLEN_def)

theorem encode_review_empty_witness:
  "encode_review (\<lambda>s. s) [ascii ''film'' \<mapsto> 19] [] = [replicate 199 0 @ [1]]"
  using encode_review_empty [of "\<lambda>s. s" "[ascii ''film'' \<mapsto> 19]"]
  by blast

text \<open>
  C2. The result is one row of length exactly 200 (\<open>MAXLEN\<close>): when \<^verbatim>\<open>encoded\<close> has at
  most 200 entries it is padded on the left with 0, and when it has more, its earliest
  entries are dropped and the last 200 stay.
\<close>

theorem encode_review_length:
  "length (encode_review unicode_lower word_index text) = 1 \<and>
   (\<forall>row \<in> set (encode_review unicode_lower word_index text). length row = 200) \<and>
   (length (encoded_of unicode_lower word_index text) \<le> 200 \<longrightarrow>
      encode_review unicode_lower word_index text =
        [replicate (200 - length (encoded_of unicode_lower word_index text)) 0 @
         encoded_of unicode_lower word_index text]) \<and>
   (200 < length (encoded_of unicode_lower word_index text) \<longrightarrow>
      encode_review unicode_lower word_index text =
        [drop (length (encoded_of unicode_lower word_index text) - 200)
           (encoded_of unicode_lower word_index text)])"
  by (simp add: encode_review_row length_pad_row pad_row_short pad_row_long MAXLEN_def)

theorem encode_review_length_witness:
  "length (encoded_of (\<lambda>s. s) Map.empty (concat (replicate 3 (ascii ''a '')))) \<le> 200 \<and>
   encode_review (\<lambda>s. s) Map.empty (concat (replicate 3 (ascii ''a ''))) =
     [replicate 196 0 @ [1, 2, 2, 2]] \<and>
   200 < length (encoded_of (\<lambda>s. s) Map.empty (concat (replicate 205 (ascii ''a '')))) \<and>
   encode_review (\<lambda>s. s) Map.empty (concat (replicate 205 (ascii ''a ''))) =
     [replicate 200 2] \<and>
   map length (encode_review (\<lambda>s. s) Map.empty (concat (replicate 205 (ascii ''a '')))) = [200]"
proof -
  let ?short = "concat (replicate 3 (ascii ''a ''))"
  let ?long = "concat (replicate 205 (ascii ''a ''))"
  have r: "replicate 3 (2::int) = [2, 2, 2]"
    by (simp add: numeral_3_eq_3)
  have "encoded_of (\<lambda>s. s) Map.empty ?short = 1 # replicate 3 2"
    by (rule encoded_of_reps)
  then have s: "encoded_of (\<lambda>s. s) Map.empty ?short = [1, 2, 2, 2]"
    by (simp only: r)
  have l: "encoded_of (\<lambda>s. s) Map.empty ?long = 1 # replicate 205 2"
    by (rule encoded_of_reps)
  have "encode_review (\<lambda>s. s) Map.empty ?short = [replicate 196 0 @ [1, 2, 2, 2]]"
    using encode_review_length [of "\<lambda>s. s" Map.empty ?short] by (simp add: s)
  moreover have "encode_review (\<lambda>s. s) Map.empty ?long = [replicate 200 2]"
    using encode_review_length [of "\<lambda>s. s" Map.empty ?long] by (simp add: l)
  ultimately show ?thesis
    by (simp add: s l)
qed

text \<open>
  C3, as the specification states it: for every text, the first entry of the row that is
  not padding is the start value 1. This fails for a text of 200 words or more, where the
  truncation on the left drops the start entry: a review of 200 words, none of them in
  the table, is encoded as 200 times the unknown value 2.
\<close>

theorem encode_review_start_counterexample:
  "map first_content
     (encode_review (\<lambda>s. s) Map.empty (concat (replicate 200 (ascii ''a '')))) = [Some 2] \<and>
   map first_content
     (encode_review (\<lambda>s. s) Map.empty (concat (replicate 200 (ascii ''a '')))) \<noteq> [Some 1]"
proof -
  have "pad_row 200 (1 # replicate 200 2) = replicate 200 (2::int)"
    by (simp add: pad_row_def)
  moreover have "first_content (replicate 200 2) = Some 2"
    using first_content_pad [of 2 0 "replicate 199 2"]
    by (simp add: replicate_Suc [symmetric] del: replicate_Suc)
  ultimately show ?thesis
    by (simp add: encode_review_row encoded_of_reps MAXLEN_def)
qed

text \<open>
  C3, amended: for every text that splits into at most 199 words, the first entry of the
  row that is not padding is the start value 1.
\<close>

theorem encode_review_start:
  assumes "length (str_split (str_lower unicode_lower text)) \<le> 199"
  shows "map first_content (encode_review unicode_lower word_index text) = [Some 1]"
proof -
  let ?enc = "encoded_of unicode_lower word_index text"
  have "length ?enc \<le> 200"
    using assms by (simp add: encoded_of_eq)
  then have "pad_row MAXLEN ?enc = replicate (200 - length ?enc) 0 @ ?enc"
    by (simp add: pad_row_short MAXLEN_def)
  then have "first_content (pad_row MAXLEN ?enc) = Some 1"
    by (simp add: encoded_of_eq first_content_pad)
  then show ?thesis
    by (simp add: encode_review_row)
qed

theorem encode_review_start_witness:
  "length (str_split (str_lower (\<lambda>s. s) (concat (replicate 199 (ascii ''a ''))))) \<le> 199 \<and>
   map first_content
     (encode_review (\<lambda>s. s) Map.empty (concat (replicate 199 (ascii ''a '')))) = [Some 1]"
proof -
  have "length (str_split (str_lower (\<lambda>s. s) (concat (replicate 199 (ascii ''a ''))))) \<le> 199"
    by (simp add: str_lower_def is_ascii_reps lower_reps split_reps)
  with encode_review_start [OF this, of Map.empty] show ?thesis
    by simp
qed

text \<open>
  C6. With a table where \<^verbatim>\<open>the\<close> has rank 1, \<^verbatim>\<open>film\<close> 19, \<^verbatim>\<open>was\<close> 14 and
  \<^verbatim>\<open>great\<close> 87, the text \<^verbatim>\<open>the film was great\<close> gives the entries 1, 4, 22, 17, 90
  before padding, and the result is these entries after 195 zeros.
\<close>

theorem encode_review_example:
  assumes "word_index (ascii ''the'') = Some 1"
    and "word_index (ascii ''film'') = Some 19"
    and "word_index (ascii ''was'') = Some 14"
    and "word_index (ascii ''great'') = Some 87"
  shows "encoded_of unicode_lower word_index (ascii ''the film was great'') = [1, 4, 22, 17, 90] \<and>
         encode_review unicode_lower word_index (ascii ''the film was great'') =
           [replicate 195 0 @ [1, 4, 22, 17, 90]]"
proof -
  have w: "str_split (str_lower unicode_lower (ascii ''the film was great'')) =
             [ascii ''the'', ascii ''film'', ascii ''was'', ascii ''great'']"
    by (simp add: str_split_def str_lower_def is_ascii_def ascii_def ascii_lower_char_def
        isspace_def)
  have enc: "encoded_of unicode_lower word_index (ascii ''the film was great'') =
               [1, 4, 22, 17, 90]"
    unfolding encoded_of_eq w using assms by (simp add: word_code_def)
  have "pad_row MAXLEN [1, 4, 22, 17, 90] = replicate 195 0 @ [1, 4, 22, 17, 90]"
    by (simp add: pad_row_def MAXLEN_def)
  with enc show ?thesis
    by (simp add: encode_review_row)
qed

theorem encode_review_example_witness:
  "[ascii ''the'' \<mapsto> 1, ascii ''film'' \<mapsto> 19, ascii ''was'' \<mapsto> 14, ascii ''great'' \<mapsto> 87]
     (ascii ''the'') = Some (1::nat) \<and>
   encode_review (\<lambda>s. s)
     [ascii ''the'' \<mapsto> 1, ascii ''film'' \<mapsto> 19, ascii ''was'' \<mapsto> 14, ascii ''great'' \<mapsto> 87]
     (ascii ''the film was great'') = [replicate 195 0 @ [1, 4, 22, 17, 90]]"
proof -
  let ?wi = "[ascii ''the'' \<mapsto> 1, ascii ''film'' \<mapsto> 19, ascii ''was'' \<mapsto> 14,
              ascii ''great'' \<mapsto> 87] :: word_index"
  have a: "?wi (ascii ''the'') = Some 1" and b: "?wi (ascii ''film'') = Some 19"
    and c: "?wi (ascii ''was'') = Some 14" and d: "?wi (ascii ''great'') = Some 87"
    by (simp_all add: ascii_def)
  from encode_review_example [OF a b c d, of "\<lambda>s. s"] a show ?thesis
    by blast
qed

text \<open>
  C7. Two runs of \<^verbatim>\<open>encode_review\<close> on the same text, from two stores that hold the same
  table, return the same sequence, whatever else the two stores hold: the model, the
  input of the page, and what earlier runs have left in \<^verbatim>\<open>words\<close>, \<^verbatim>\<open>encoded\<close> and
  \<^verbatim>\<open>padded\<close>. A run leaves the table as it was, so a second run on the same text, from
  the store that the first has reached, returns the same sequence again.
\<close>

theorem encode_review_deterministic:
  assumes "g_word_index s1 = g_word_index s2"
  shows "fst (encode_review_run unicode_lower s1 text) =
           fst (encode_review_run unicode_lower s2 text) \<and>
         g_word_index (snd (encode_review_run unicode_lower s1 text)) = g_word_index s1 \<and>
         fst (encode_review_run unicode_lower
                (snd (encode_review_run unicode_lower s1 text)) text) =
           fst (encode_review_run unicode_lower s1 text)"
  using assms by (simp add: encode_review_run_eq)

theorem encode_review_deterministic_witness:
  "l_encoded \<lparr>g_word_index = [ascii ''film'' \<mapsto> 19], g_model = (\<lambda>seq. NaN),
       g_user_input = ascii ''first'', l_words = [], l_encoded = [], l_padded = []\<rparr> \<noteq>
   l_encoded \<lparr>g_word_index = [ascii ''film'' \<mapsto> 19], g_model = (\<lambda>seq. Fin (3 / 4)),
       g_user_input = ascii ''second'', l_words = [ascii ''old''], l_encoded = [1, 2, 7],
       l_padded = [[5]]\<rparr> \<and>
   fst (encode_review_run (\<lambda>s. s)
     \<lparr>g_word_index = [ascii ''film'' \<mapsto> 19], g_model = (\<lambda>seq. NaN),
       g_user_input = ascii ''first'', l_words = [], l_encoded = [], l_padded = []\<rparr>
     (ascii ''Great film'')) =
   fst (encode_review_run (\<lambda>s. s)
     \<lparr>g_word_index = [ascii ''film'' \<mapsto> 19], g_model = (\<lambda>seq. Fin (3 / 4)),
       g_user_input = ascii ''second'', l_words = [ascii ''old''], l_encoded = [1, 2, 7],
       l_padded = [[5]]\<rparr>
     (ascii ''Great film''))"
proof -
  let ?a = "\<lparr>g_word_index = [ascii ''film'' \<mapsto> 19], g_model = (\<lambda>seq. NaN),
       g_user_input = ascii ''first'', l_words = [], l_encoded = [], l_padded = []\<rparr>"
  let ?b = "\<lparr>g_word_index = [ascii ''film'' \<mapsto> 19], g_model = (\<lambda>seq. Fin (3 / 4)),
       g_user_input = ascii ''second'', l_words = [ascii ''old''], l_encoded = [1, 2, 7],
       l_padded = [[5]]\<rparr>"
  have t: "g_word_index ?a = g_word_index ?b"
    by simp
  have d: "l_encoded ?a \<noteq> l_encoded ?b"
    by simp
  from encode_review_deterministic [OF t, of "\<lambda>s. s" "ascii ''Great film''"] d
  show ?thesis
    by blast
qed

text \<open>
  The sequence that both runs of this example return: the start value, the unknown value
  for \<^verbatim>\<open>great\<close>, and 22 for \<^verbatim>\<open>film\<close>, after 197 zeros.
\<close>

lemma encode_review_run_example:
  "fst (encode_review_run (\<lambda>s. s)
     \<lparr>g_word_index = [ascii ''film'' \<mapsto> 19], g_model = (\<lambda>seq. Fin (3 / 4)),
       g_user_input = ascii ''second'', l_words = [ascii ''old''], l_encoded = [1, 2, 7],
       l_padded = [[5]]\<rparr>
     (ascii ''Great film'')) = [replicate 197 0 @ [1, 2, 22]]"
proof -
  have w: "str_split (str_lower (\<lambda>s. s) (ascii ''Great film'')) =
             [ascii ''great'', ascii ''film'']"
    by (simp add: str_split_def str_lower_def is_ascii_def ascii_def ascii_lower_char_def
        isspace_def)
  have "encoded_of (\<lambda>s. s) [ascii ''film'' \<mapsto> 19] (ascii ''Great film'') = [1, 2, 22]"
    unfolding encoded_of_eq w by (simp add: word_code_def ascii_def)
  then show ?thesis
    by (simp add: encode_review_run_eq encode_review_row pad_row_def MAXLEN_def)
qed

text \<open>
  C9. When every rank of the table is positive, every entry of the row is at least 0 and
  below 10000, and none is 3: the entries are 0, 1, 2 or from 4 to 9999.
\<close>

theorem encode_review_range:
  assumes "\<forall>w rank. word_index w = Some rank \<longrightarrow> 0 < rank"
  shows "\<forall>row \<in> set (encode_review unicode_lower word_index text).
           \<forall>x \<in> set row. 0 \<le> x \<and> x < 10000 \<and> x \<noteq> 3"
proof -
  have code: "0 \<le> word_code word_index w \<and> word_code word_index w < 10000 \<and>
              word_code word_index w \<noteq> 3" for w
  proof (cases "word_index w")
    case None
    then show ?thesis by (simp add: word_code_def)
  next
    case (Some rank)
    with assms have "0 < rank" by blast
    with Some show ?thesis by (simp add: word_code_def)
  qed
  have enc: "0 \<le> x \<and> x < 10000 \<and> x \<noteq> 3"
    if "x \<in> set (encoded_of unicode_lower word_index text)" for x
  proof -
    from that have "x = 1 \<or> (\<exists>w. x = word_code word_index w)"
      by (auto simp: encoded_of_eq)
    with code show ?thesis by auto
  qed
  have "0 \<le> x \<and> x < 10000 \<and> x \<noteq> 3"
    if "x \<in> set (pad_row MAXLEN (encoded_of unicode_lower word_index text))" for x
  proof -
    from that set_pad_row [of MAXLEN "encoded_of unicode_lower word_index text"]
    have "x = 0 \<or> x \<in> set (encoded_of unicode_lower word_index text)"
      by blast
    with enc show ?thesis by auto
  qed
  then show ?thesis
    by (simp add: encode_review_row)
qed

theorem encode_review_range_witness:
  "encode_review (\<lambda>s. s) [ascii ''good'' \<mapsto> 10, ascii ''film'' \<mapsto> 9997]
     (ascii ''Good xyz film'') \<noteq> [] \<and>
   list_all (list_all (\<lambda>x. 0 \<le> x \<and> x < 10000 \<and> x \<noteq> 3))
     (encode_review (\<lambda>s. s) [ascii ''good'' \<mapsto> 10, ascii ''film'' \<mapsto> 9997]
        (ascii ''Good xyz film''))"
proof -
  let ?wi = "[ascii ''good'' \<mapsto> 10, ascii ''film'' \<mapsto> 9997] :: word_index"
  have pos: "\<forall>w rank. ?wi w = Some rank \<longrightarrow> 0 < rank"
    by (auto split: if_splits)
  have ne: "encode_review (\<lambda>s. s) ?wi (ascii ''Good xyz film'') \<noteq> []"
    by (simp add: encode_review_row)
  from encode_review_range [OF pos, of "\<lambda>s. s" "ascii ''Good xyz film''"] ne show ?thesis
    unfolding list_all_iff by blast
qed

text \<open>
  C10. A text of whitespace characters only is encoded as the empty text is: 199 zeros,
  then the start value 1. Whitespace has no case, so lower-casing leaves it whitespace;
  for a text with a character outside ASCII this is a fact of the Unicode tables, and is
  assumed of \<open>unicode_lower\<close> at this text.
\<close>

theorem encode_review_whitespace:
  assumes "list_all isspace text"
    and "\<not> is_ascii text \<longrightarrow> list_all isspace (unicode_lower text)"
  shows "encode_review unicode_lower word_index text = encode_review unicode_lower word_index [] \<and>
         encode_review unicode_lower word_index text = [replicate 199 0 @ [1]]"
proof -
  have "list_all isspace (str_lower unicode_lower text)"
  proof (cases "is_ascii text")
    case True
    with assms(1) show ?thesis
      by (simp add: str_lower_def map_ascii_lower_spaces)
  next
    case False
    with assms(2) show ?thesis
      by (simp add: str_lower_def)
  qed
  then have "str_split (str_lower unicode_lower text) = []"
    by (rule str_split_spaces)
  then have t: "encode_review unicode_lower word_index text = [replicate 199 0 @ [1]]"
    by (rule encode_review_no_words)
  have "str_split (str_lower unicode_lower []) = []"
    by (simp add: str_lower_def is_ascii_def str_split_def)
  then have "encode_review unicode_lower word_index [] = [replicate 199 0 @ [1]]"
    by (rule encode_review_no_words)
  with t show ?thesis
    by simp
qed

theorem encode_review_whitespace_witness:
  "list_all isspace [160, 32, 8195] \<and> \<not> is_ascii [160, 32, 8195] \<and>
   list_all isspace ((\<lambda>s. s) [160, 32, 8195]) \<and>
   encode_review (\<lambda>s. s) Map.empty [160, 32, 8195] = [replicate 199 0 @ [1]] \<and>
   list_all isspace [32, 9, 10] \<and> is_ascii [32, 9, 10] \<and>
   encode_review (\<lambda>s. s) Map.empty [32, 9, 10] = [replicate 199 0 @ [1]]"
proof -
  have a: "list_all isspace [160, 32, 8195]"
    by (simp add: isspace_def)
  have b: "\<not> is_ascii [160, 32, 8195] \<longrightarrow> list_all isspace ((\<lambda>s. s) [160, 32, 8195])"
    by (simp add: isspace_def)
  have c: "\<not> is_ascii [160, 32, 8195]"
    by (simp add: is_ascii_def)
  have d: "list_all isspace [32, 9, 10]"
    by (simp add: isspace_def)
  have e: "is_ascii [32, 9, 10]"
    by (simp add: is_ascii_def)
  then have f: "\<not> is_ascii [32, 9, 10] \<longrightarrow> list_all isspace ((\<lambda>s. s) [32, 9, 10])"
    by simp
  from encode_review_whitespace
         [of "[160, 32, 8195]" "\<lambda>s. s" Map.empty]
       encode_review_whitespace
         [of "[32, 9, 10]" "\<lambda>s. s" Map.empty]
       a b c d e f
  show ?thesis
    by blast
qed

text \<open>
  C4. When the forward pass gives the number \<open>p\<close>, \<^verbatim>\<open>predict_review\<close> returns the label
  \<^verbatim>\<open>Positive\<close> if \<open>p\<close> is 0.5 or more and \<^verbatim>\<open>Negative\<close> if \<open>p\<close> is below 0.5, and
  with the label it returns \<open>p\<close> itself.
\<close>

theorem predict_review_threshold:
  assumes "model (encode_review unicode_lower word_index text) = Fin p"
  shows "(p \<ge> 1 / 2 \<longrightarrow>
            fst (predict_review model unicode_lower word_index text) = (''Positive'', Fin p)) \<and>
         (p < 1 / 2 \<longrightarrow>
            fst (predict_review model unicode_lower word_index text) = (''Negative'', Fin p))"
  using assms by (simp add: predict_review_def Let_def)

theorem predict_review_threshold_witness:
  "fst (predict_review (\<lambda>seq. Fin (1 / 2)) (\<lambda>s. s) Map.empty (ascii ''fine'')) =
     (''Positive'', Fin (1 / 2)) \<and>
   fst (predict_review (\<lambda>seq. Fin (4999 / 10000)) (\<lambda>s. s) Map.empty (ascii ''fine'')) =
     (''Negative'', Fin (4999 / 10000))"
proof -
  have a: "(\<lambda>seq. Fin (1 / 2)) (encode_review (\<lambda>s. s) Map.empty (ascii ''fine'')) = Fin (1 / 2)"
    by simp
  have b: "(\<lambda>seq. Fin (4999 / 10000)) (encode_review (\<lambda>s. s) Map.empty (ascii ''fine'')) =
             Fin (4999 / 10000)"
    by simp
  have c: "(1 / 2 :: rat) \<ge> 1 / 2" and d: "(4999 / 10000 :: rat) < 1 / 2"
    by simp_all
  from predict_review_threshold [OF a] predict_review_threshold [OF b] c d show ?thesis
    by blast
qed

text \<open>
  C8. When the button is clicked on an input of whitespace only (the empty input
  included), which strips to length 0, the handler shows the warning and runs no forward
  pass; it runs a forward pass only on an input that strips to a non-empty string. The
  other calls of \<^verbatim>\<open>predict_review\<close> in the script are those on the five example
  reviews, and each of them strips to a non-empty string.
\<close>

theorem classify_button_empty_input:
  "(list_all isspace user_input \<longrightarrow>
      length (str_strip user_input) = 0 \<and>
      classify_button model unicode_lower word_index True user_input =
        [StWarning ''Please write a review to classify.'']) \<and>
   (\<forall>seq. ModelPredict seq \<in>
        set (classify_button model unicode_lower word_index clicked user_input) \<longrightarrow>
      clicked \<and> length (str_strip user_input) \<noteq> 0) \<and>
   (\<forall>text \<in> set sample_reviews. length (str_strip text) \<noteq> 0)"
proof -
  have "length (str_strip user_input) = 0"
    if "list_all isspace user_input"
    using that str_strip_Nil_iff [of user_input] by simp
  moreover have "\<forall>text \<in> set sample_reviews. length (str_strip text) \<noteq> 0"
    by (simp add: sample_reviews_def str_strip_Nil_iff ascii_def isspace_def)
  ultimately show ?thesis
    by (auto simp: classify_button_def split: if_splits)
qed

theorem classify_button_empty_input_witness:
  "list_all isspace (ascii ''  '') \<and>
   classify_button (\<lambda>seq. Fin (3 / 4)) (\<lambda>s. s) Map.empty True (ascii ''  '') =
     [StWarning ''Please write a review to classify.''] \<and>
   ModelPredict (encode_review (\<lambda>s. s) Map.empty (ascii '' ok ''))
     \<in> set (classify_button (\<lambda>seq. Fin (3 / 4)) (\<lambda>s. s) Map.empty True (ascii '' ok '')) \<and>
   length (str_strip (ascii '' ok '')) \<noteq> 0 \<and>
   sample_reviews \<noteq> [] \<and>
   list_all (\<lambda>text. length (str_strip text) \<noteq> 0) sample_reviews"
proof -
  have a: "list_all isspace (ascii ''  '')"
    by (simp add: ascii_def isspace_def)
  have s: "str_strip (ascii '' ok '') = ascii ''ok''"
    by (simp add: str_strip_def ascii_def isspace_def)
  have b: "ModelPredict (encode_review (\<lambda>s. s) Map.empty (ascii '' ok ''))
     \<in> set (classify_button (\<lambda>seq. Fin (3 / 4)) (\<lambda>s. s) Map.empty True (ascii '' ok ''))"
    by (simp add: classify_button_def predict_review_def Let_def s) (simp add: ascii_def)
  have c: "sample_reviews \<noteq> []"
    by (simp add: sample_reviews_def)
  from classify_button_empty_input
         [of "ascii ''  ''" "\<lambda>seq. Fin (3 / 4)" "\<lambda>s. s" Map.empty True]
       classify_button_empty_input
         [of "ascii '' ok ''" "\<lambda>seq. Fin (3 / 4)" "\<lambda>s. s" Map.empty True]
       a b c
  show ?thesis
    unfolding list_all_iff by blast
qed

end
